theory Spec2Isabelle
  imports Main
begin

section \<open>Data model of \<open>word_decoder.py\<close>\<close>

text \<open>
  A phoneme is a symbol of the pronunciation dictionary (a Python string). Strings are
  lists of 8-bit characters, read as the code points 0 to 255.
\<close>

type_synonym phoneme = string

datatype Indicator =
    SHORT_VOWEL
  | LONG_VOWEL
  | HARD_CONSONANT
  | SOFT_CONSONANT
  | LETTER_COMBO
  | SILENT_E
  | UNDECODABLE

text \<open>
  The four ways the source raises: \<open>Exception("Word not found")\<close> in the constructor,
  the failed subscript \<open>utils.simplified_cmudict[word]\<close> in the classifiers, the
  \<open>Exception("... appears to have more than one vowel!")\<close> of the classifiers, and the
  \<open>NameError\<close> of a call through a name that is not bound.
\<close>

datatype error = WordNotFound | KeyError | MoreThanOneVowel | NameError

text \<open>
  A rule table is a Python dict from a letter pattern to a list of phoneme tuples. The
  decoder iterates over \<open>.items()\<close> in insertion order, so a table is an association list.
\<close>

type_synonym sound_table = "(string \<times> phoneme list list) list"

text \<open>
  The module \<open>utils\<close> is not part of the sources at hand. Its tables are parameters of
  the model, collected in one record.
\<close>

record tables =
  simplified_cmudict :: "string \<rightharpoonup> phoneme list"
  prefixes :: sound_table
  suffixes :: sound_table
  letter_combinations :: sound_table
  short_vowels :: sound_table
  long_vowels :: sound_table
  hard_consonants :: sound_table
  soft_consonants :: sound_table
  all_vowel_sounds :: "phoneme list"

text \<open>
  The classifiers call \<open>is_vowel_sound\<close>, \<open>only_short_vowels\<close> and \<open>is_vowel\<close> as plain
  names. \<open>word_decoder.py\<close> neither defines nor imports them (it imports \<open>Enum\<close>,
  \<open>auto\<close> and \<open>utils\<close> only), so each call looks the name up in the global namespace of
  the module at the moment it is evaluated, and raises \<open>NameError\<close> when the name is not
  bound. The namespace is a parameter of the classifiers: for each of the three names,
  the function it is bound to, if any.
\<close>

record module_globals =
  is_vowel_sound :: "(phoneme \<Rightarrow> bool) option"
  only_short_vowels :: "(string \<Rightarrow> bool) option"
  is_vowel :: "(char \<Rightarrow> bool) option"

text \<open>The namespace of \<open>word_decoder.py\<close> as it is written: none of the three is bound.\<close>

definition word_decoder_globals :: module_globals where
  "word_decoder_globals =
     \<lparr>is_vowel_sound = None, only_short_vowels = None, is_vowel = None\<rparr>"

text \<open>The instance fields of \<open>WordDecoder\<close>.\<close>

record decoder =
  word :: string
  word_phonemes :: "phoneme list"
  remaining_letters :: string
  remaining_sounds :: "phoneme list"
  letter_parts :: "string list"
  sound_parts :: "phoneme list list"
  indicators :: "Indicator list"
  decodable :: bool

text \<open>The three local lists of \<open>process_affixes\<close>, which it returns.\<close>

record affix_parts =
  affix_letter_parts :: "string list"
  affix_sound_parts :: "phoneme list list"
  affix_indicators :: "Indicator list"

section \<open>Python string and slice primitives\<close>

definition ascii_uppercase :: string where
  "ascii_uppercase = ''ABCDEFGHIJKLMNOPQRSTUVWXYZ''"

definition ascii_lowercase :: string where
  "ascii_lowercase = ''abcdefghijklmnopqrstuvwxyz''"

text \<open>
  A character is a code point below 256. \<open>str.lower\<close> maps the capital letters of
  ASCII (65 to 90) and of Latin-1 (192 to 214 and 216 to 222) to the letter 32 places
  up and leaves every other character alone; \<open>str.isalpha\<close> holds of the ASCII letters
  and of the Latin-1 letters (170, 181, 186, 192 to 214, 216 to 246, 248 to 255).
\<close>

definition lower_char :: "char \<Rightarrow> char" where
  "lower_char c =
     (case map_of (zip ascii_uppercase ascii_lowercase) c of
        Some d \<Rightarrow> d
      | None \<Rightarrow>
          (let n = (of_char c :: nat)
           in if (192 \<le> n \<and> n \<le> 214) \<or> (216 \<le> n \<and> n \<le> 222) then char_of (n + 32)
              else c))"

definition lower :: "string \<Rightarrow> string" where
  "lower s = map lower_char s"

definition isalpha :: "char \<Rightarrow> bool" where
  "isalpha c =
     (c \<in> set (ascii_lowercase @ ascii_uppercase)
      \<or> (let n = (of_char c :: nat)
          in n = 170 \<or> n = 181 \<or> n = 186 \<or> (192 \<le> n \<and> n \<le> 214)
             \<or> (216 \<le> n \<and> n \<le> 246) \<or> (248 \<le> n \<and> n \<le> 255)))"

definition startswith :: "string \<Rightarrow> string \<Rightarrow> bool" where
  "startswith s p = (take (length p) s = p)"

definition endswith :: "string \<Rightarrow> string \<Rightarrow> bool" where
  "endswith s p = (drop (length s - length p) s = p)"

text \<open>
  \<open>s.lstrip(chars)\<close> removes every leading character that occurs in \<open>chars\<close>;
  \<open>s.rstrip(chars)\<close> does so at the end. Neither removes \<open>chars\<close> as a prefix.
\<close>

definition lstrip :: "string \<Rightarrow> string \<Rightarrow> string" where
  "lstrip s chars = dropWhile (\<lambda>c. c \<in> set chars) s"

definition rstrip :: "string \<Rightarrow> string \<Rightarrow> string" where
  "rstrip s chars = rev (dropWhile (\<lambda>c. c \<in> set chars) (rev s))"

text \<open>\<open>affix.replace('-', '')\<close>\<close>

definition remove_hyphens :: "string \<Rightarrow> string" where
  "remove_hyphens affix = filter (\<lambda>c. c \<noteq> CHR ''-'') affix"

text \<open>
  \<open>xs[-k:]\<close> and \<open>xs[:-k]\<close>. With \<open>k = 0\<close> Python reads \<open>-0\<close> as \<open>0\<close>, so the first is
  the whole list and the second is empty; a \<open>k\<close> beyond the length is clamped.
\<close>

definition slice_last :: "nat \<Rightarrow> 'a list \<Rightarrow> 'a list" where
  "slice_last k xs = (if k = 0 then xs else drop (length xs - k) xs)"

definition slice_but_last :: "nat \<Rightarrow> 'a list \<Rightarrow> 'a list" where
  "slice_but_last k xs = (if k = 0 then [] else take (length xs - k) xs)"

section \<open>The decoder\<close>

definition handle_undecodable :: "decoder \<Rightarrow> decoder" where
  "handle_undecodable st =
     st\<lparr>decodable := False,
        letter_parts := letter_parts st @ [remaining_letters st],
        sound_parts := sound_parts st @ [remaining_sounds st],
        indicators := indicators st @ [UNDECODABLE],
        remaining_letters := [],
        remaining_sounds := []\<rparr>"

text \<open>
  The inner loop of \<open>process_affixes\<close> over the phoneme tuples of one affix. The first
  tuple that matches updates the state and leaves this loop (\<open>break\<close>).
\<close>

fun affix_sounds_loop ::
  "bool \<Rightarrow> string \<Rightarrow> phoneme list list \<Rightarrow> decoder \<times> affix_parts \<Rightarrow> decoder \<times> affix_parts"
where
  "affix_sounds_loop is_prefix affix [] (st, ap) = (st, ap)"
| "affix_sounds_loop is_prefix affix (affix_sound # rest) (st, ap) =
     (let affix_letters = remove_hyphens affix;
          letters_match =
            (if is_prefix then startswith (word st) affix_letters
             else endswith (word st) affix_letters);
          sounds_match =
            (if is_prefix then take (length affix_sound) (word_phonemes st) = affix_sound
             else slice_last (length affix_sound) (word_phonemes st) = affix_sound);
          num_sounds = length affix_sound
      in if letters_match \<and> sounds_match then
           (st\<lparr>remaining_letters :=
                 (if is_prefix then lstrip (remaining_letters st) affix_letters
                  else rstrip (remaining_letters st) affix_letters),
               remaining_sounds :=
                 (if is_prefix then drop num_sounds (remaining_sounds st)
                  else slice_but_last num_sounds (remaining_sounds st))\<rparr>,
            ap\<lparr>affix_letter_parts := affix_letter_parts ap @ [affix],
               affix_sound_parts := affix_sound_parts ap @ [affix_sound],
               affix_indicators := affix_indicators ap @ [LETTER_COMBO]\<rparr>)
         else affix_sounds_loop is_prefix affix rest (st, ap))"

text \<open>The outer loop over the entries of the affix table; nothing leaves it early.\<close>

fun affixes_loop ::
  "bool \<Rightarrow> sound_table \<Rightarrow> decoder \<times> affix_parts \<Rightarrow> decoder \<times> affix_parts"
where
  "affixes_loop is_prefix [] sa = sa"
| "affixes_loop is_prefix ((affix, affix_sounds) # rest) sa =
     affixes_loop is_prefix rest (affix_sounds_loop is_prefix affix affix_sounds sa)"

definition process_affixes :: "sound_table \<Rightarrow> bool \<Rightarrow> decoder \<Rightarrow> decoder \<times> affix_parts" where
  "process_affixes affixes_dict is_prefix st =
     affixes_loop is_prefix affixes_dict
       (st, \<lparr>affix_letter_parts = [], affix_sound_parts = [], affix_indicators = []\<rparr>)"

definition process_single_letter_sound ::
  "string \<Rightarrow> phoneme list \<Rightarrow> Indicator \<Rightarrow> decoder \<Rightarrow> decoder"
where
  "process_single_letter_sound letter sound indicator st =
     st\<lparr>letter_parts := letter_parts st @ [letter],
        sound_parts := sound_parts st @ [sound],
        indicators := indicators st @ [indicator],
        remaining_letters := drop 1 (remaining_letters st),
        remaining_sounds :=
          (if remaining_sounds st \<noteq> [] then drop (length sound) (remaining_sounds st)
           else [])\<rparr>"

text \<open>
  The search through \<open>utils.letter_combinations\<close>: the inner loop over the phoneme tuples
  of one combination, and the outer loop over the combinations. \<open>Some\<close> is the state
  after the \<open>break\<close>; \<open>None\<close> means the loop ran to its end, so its \<open>else\<close> branch runs.
\<close>

fun combo_sounds_loop :: "string \<Rightarrow> phoneme list list \<Rightarrow> decoder \<Rightarrow> decoder option" where
  "combo_sounds_loop letters [] st = None"
| "combo_sounds_loop letters (sound # rest) st =
     (if startswith (remaining_letters st) letters
         \<and> take (length sound) (remaining_sounds st) = sound
      then Some (st\<lparr>letter_parts := letter_parts st @ [letters],
                    sound_parts := sound_parts st @ [sound],
                    indicators := indicators st @ [LETTER_COMBO],
                    remaining_letters := lstrip (remaining_letters st) letters,
                    remaining_sounds := drop (length sound) (remaining_sounds st)\<rparr>)
      else combo_sounds_loop letters rest st)"

fun combos_loop :: "sound_table \<Rightarrow> decoder \<Rightarrow> decoder option" where
  "combos_loop [] st = None"
| "combos_loop ((letters, sounds) # rest) st =
     (case combo_sounds_loop letters sounds st of
        Some st' \<Rightarrow> Some st'
      | None \<Rightarrow> combos_loop rest st)"

text \<open>\<open>SOUND_CATEGORIES.items()\<close>, in the order the dict literal lists them.\<close>

definition SOUND_CATEGORIES :: "tables \<Rightarrow> (Indicator \<times> sound_table) list" where
  "SOUND_CATEGORIES T =
     [(SHORT_VOWEL, short_vowels T),
      (LONG_VOWEL, long_vowels T),
      (HARD_CONSONANT, hard_consonants T),
      (SOFT_CONSONANT, soft_consonants T)]"

text \<open>\<open>sound_dict.get(this_letter, [])\<close>\<close>

definition get_sounds :: "sound_table \<Rightarrow> string \<Rightarrow> phoneme list list" where
  "get_sounds sound_dict this_letter =
     (case map_of sound_dict this_letter of None \<Rightarrow> [] | Some sounds \<Rightarrow> sounds)"

text \<open>
  The two loops over the sound categories. The state carries the flag \<open>matched\<close>, which
  the silent-E test may already have set when the loops start.
\<close>

fun category_sounds_loop ::
  "string \<Rightarrow> Indicator \<Rightarrow> phoneme list list \<Rightarrow> decoder \<times> bool \<Rightarrow> decoder \<times> bool"
where
  "category_sounds_loop this_letter indicator [] (st, matched) = (st, matched)"
| "category_sounds_loop this_letter indicator (sound # rest) (st, matched) =
     (if take (length sound) (remaining_sounds st) = sound
      then (process_single_letter_sound this_letter sound indicator st, True)
      else category_sounds_loop this_letter indicator rest (st, matched))"

fun categories_loop ::
  "string \<Rightarrow> (Indicator \<times> sound_table) list \<Rightarrow> decoder \<times> bool \<Rightarrow> decoder \<times> bool"
where
  "categories_loop this_letter [] sm = sm"
| "categories_loop this_letter ((indicator, sound_dict) # rest) sm =
     (let sm' = category_sounds_loop this_letter indicator
                  (get_sounds sound_dict this_letter) sm
      in if snd sm' then sm' else categories_loop this_letter rest sm')"

text \<open>
  The \<open>else\<close> branch of the combination search, for a non-empty buffer: skip a
  non-alphabetic character, else try silent E, then the sound categories, and give up with
  \<open>handle_undecodable\<close> when nothing matched.
\<close>

definition single_letter :: "tables \<Rightarrow> decoder \<Rightarrow> decoder" where
  "single_letter T st =
     (let this_letter = hd (remaining_letters st) in
      if \<not> isalpha this_letter then st\<lparr>remaining_letters := drop 1 (remaining_letters st)\<rparr>
      else
        let sm0 =
              (if (length (remaining_sounds st) = 0
                     \<or> hd (remaining_sounds st) \<notin> set (all_vowel_sounds T))
                  \<and> this_letter = CHR ''e''
               then (process_single_letter_sound [this_letter] [] SILENT_E st, True)
               else (st, False));
            sm1 = categories_loop [this_letter] (SOUND_CATEGORIES T) sm0
        in if \<not> snd sm1 then handle_undecodable (fst sm1) else fst sm1)"

text \<open>One pass through the body of the \<open>while\<close> loop, entered with a non-empty buffer.\<close>

definition body_iter :: "tables \<Rightarrow> decoder \<Rightarrow> decoder" where
  "body_iter T st =
     (case combos_loop (letter_combinations T) st of
        Some st' \<Rightarrow> st'
      | None \<Rightarrow> single_letter T st)"

text \<open>
  The \<open>while\<close> loop, with a bound on the number of passes: \<open>None\<close> means that the buffer
  is still non-empty after that many passes.
\<close>

fun body_loop :: "tables \<Rightarrow> nat \<Rightarrow> decoder \<Rightarrow> decoder option" where
  "body_loop T 0 st = (if length (remaining_letters st) > 0 then None else Some st)"
| "body_loop T (Suc k) st =
     (if length (remaining_letters st) > 0 then body_loop T k (body_iter T st) else Some st)"

definition decode :: "tables \<Rightarrow> nat \<Rightarrow> decoder \<Rightarrow> decoder option" where
  "decode T n st =
     (let (st1, pre) = process_affixes (prefixes T) True st;
          (st2, suf) = process_affixes (suffixes T) False st1
      in case body_loop T n st2 of
           None \<Rightarrow> None
         | Some st3 \<Rightarrow>
             Some (st3\<lparr>letter_parts :=
                         affix_letter_parts pre @ letter_parts st3 @ affix_letter_parts suf,
                       sound_parts :=
                         affix_sound_parts pre @ sound_parts st3 @ affix_sound_parts suf,
                       indicators :=
                         affix_indicators pre @ indicators st3 @ affix_indicators suf\<rparr>))"

text \<open>
  \<open>WordDecoder.__init__\<close>: the result is the decoder object after \<open>decode\<close>, or the
  error raised; \<open>None\<close> is a loop that has not ended within \<open>n\<close> passes.
\<close>

definition init_decoder :: "string \<Rightarrow> phoneme list \<Rightarrow> decoder" where
  "init_decoder w ph =
     \<lparr>word = w, word_phonemes = ph, remaining_letters = w, remaining_sounds = ph,
      letter_parts = [], sound_parts = [], indicators = [], decodable = True\<rparr>"

definition WordDecoder :: "tables \<Rightarrow> nat \<Rightarrow> string \<Rightarrow> (error + decoder) option" where
  "WordDecoder T n w =
     (case simplified_cmudict T (lower w) of
        None \<Rightarrow> Some (Inl WordNotFound)
      | Some ph \<Rightarrow> map_option Inr (decode T n (init_decoder (lower w) ph)))"

section \<open>The pattern classifiers\<close>

text \<open>
  \<open>return r\<close> followed by further statements of the function body: the result is \<open>r\<close>,
  whatever the statements after it would compute.
\<close>

definition return_then :: "'a \<Rightarrow> 'a \<Rightarrow> 'a" where
  "return_then r following = r"

text \<open>
  A call through one of the three global names: \<open>NameError\<close> when the name is not
  bound, the value of the function it is bound to otherwise.
\<close>

definition call_global :: "('a \<Rightarrow> bool) option \<Rightarrow> 'a \<Rightarrow> error + bool" where
  "call_global binding x = (case binding of None \<Rightarrow> Inl NameError | Some f \<Rightarrow> Inr (f x))"

text \<open>
  Python's \<open>not\<close>, \<open>or\<close>, \<open>and\<close>, \<open>any\<close> and \<open>if\<close> over operands that may raise:
  the operands are evaluated from the left, the right operand only when the left one does
  not decide, and the first exception ends the evaluation.
\<close>

definition py_not :: "error + bool \<Rightarrow> error + bool" where
  "py_not a = (case a of Inl e \<Rightarrow> Inl e | Inr b \<Rightarrow> Inr (\<not> b))"

definition py_or :: "error + bool \<Rightarrow> error + bool \<Rightarrow> error + bool" where
  "py_or a b = (case a of Inl e \<Rightarrow> Inl e | Inr x \<Rightarrow> if x then Inr True else b)"

definition py_and :: "error + bool \<Rightarrow> error + bool \<Rightarrow> error + bool" where
  "py_and a b = (case a of Inl e \<Rightarrow> Inl e | Inr x \<Rightarrow> if x then b else Inr False)"

fun py_any :: "('a \<Rightarrow> error + bool) \<Rightarrow> 'a list \<Rightarrow> error + bool" where
  "py_any f [] = Inr False"
| "py_any f (x # xs) = py_or (f x) (py_any f xs)"

definition py_if :: "error + bool \<Rightarrow> error + 'a \<Rightarrow> error + 'a \<Rightarrow> error + 'a" where
  "py_if c t e = (case c of Inl x \<Rightarrow> Inl x | Inr b \<Rightarrow> if b then t else e)"

text \<open>
  \<open>is_vc\<close> and \<open>is_cvc\<close> take the word as an argument and do not read the decoder
  object. The default \<open>None\<close> of \<open>allowed_blends_and_digraphs\<close> stands for the empty list.
\<close>

definition is_vc ::
  "module_globals \<Rightarrow> tables \<Rightarrow> string \<Rightarrow> string list option \<Rightarrow> bool \<Rightarrow> error + bool"
where
  "is_vc G T w allowed_blends_and_digraphs include_long_vowels =
     (let allowed = (case allowed_blends_and_digraphs of None \<Rightarrow> [] | Some l \<Rightarrow> l) in
      case simplified_cmudict T w of
        None \<Rightarrow> Inl KeyError
      | Some sounds \<Rightarrow>
          py_if (py_or (Inr (length sounds \<noteq> 2))
                   (py_or (py_not (call_global (is_vowel_sound G) (sounds ! 0)))
                      (call_global (is_vowel_sound G) (sounds ! 1))))
            (Inr False)
            (py_if (py_and (Inr (\<not> include_long_vowels))
                      (py_not (call_global (only_short_vowels G) w)))
               (Inr False)
               (let consonant_part = drop 1 w in
                py_if (py_any (call_global (is_vowel G)) consonant_part)
                  (Inl MoreThanOneVowel)
                  (Inr (length consonant_part = 1 \<or> consonant_part \<in> set allowed)))))"

definition is_cvc ::
  "module_globals \<Rightarrow> tables \<Rightarrow> string \<Rightarrow> string list option \<Rightarrow> bool \<Rightarrow> error + bool"
where
  "is_cvc G T w allowed_blends_and_digraphs include_long_vowels =
     (let allowed = (case allowed_blends_and_digraphs of None \<Rightarrow> [] | Some l \<Rightarrow> l) in
      case simplified_cmudict T w of
        None \<Rightarrow> Inl KeyError
      | Some sounds \<Rightarrow>
          py_if (py_or (Inr (length sounds \<noteq> 2))
                   (py_or (py_not (call_global (is_vowel_sound G) (sounds ! 0)))
                      (call_global (is_vowel_sound G) (sounds ! 1))))
            (Inr False)
            (py_if (py_and (Inr (\<not> include_long_vowels))
                      (py_not (call_global (only_short_vowels G) w)))
               (Inr False)
               (let consonant_part = drop 1 w in
                py_if (py_any (call_global (is_vowel G)) consonant_part)
                  (Inl MoreThanOneVowel)
                  (return_then
                     (Inr (length consonant_part = 1 \<or> consonant_part \<in> set allowed))
                     (py_and (Inr (length w = 3))
                        (py_and (py_not (call_global (is_vowel G) (w ! 0)))
                           (py_and (call_global (is_vowel G) (w ! 1))
                              (py_not (call_global (is_vowel G) (w ! 2))))))))))"

section \<open>Stages of \<open>decode\<close>\<close>

text \<open>
  Names for the intermediate values of \<open>decode\<close>: the lists returned by the two calls
  of \<open>process_affixes\<close>, and the state in which the \<open>while\<close> loop starts.
\<close>

definition prefix_parts :: "tables \<Rightarrow> decoder \<Rightarrow> affix_parts" where
  "prefix_parts T st = snd (process_affixes (prefixes T) True st)"

definition suffix_parts :: "tables \<Rightarrow> decoder \<Rightarrow> affix_parts" where
  "suffix_parts T st =
     snd (process_affixes (suffixes T) False (fst (process_affixes (prefixes T) True st)))"

definition body_start :: "tables \<Rightarrow> decoder \<Rightarrow> decoder" where
  "body_start T st =
     fst (process_affixes (suffixes T) False (fst (process_affixes (prefixes T) True st)))"

section \<open>The VC shape as the specification words it\<close>

text \<open>
  The specification's reading of the VC shape, for a word with phoneme sequence
  \<open>sounds\<close>, given its vowel-sound classifier and its short-vowel test: exactly two
  phonemes, the first a vowel sound and the second not; the vowel short unless long
  vowels are permitted; the letters after the first a single letter or an allowed blend
  or digraph.
\<close>

definition vc_shape_spec ::
  "(phoneme \<Rightarrow> bool) \<Rightarrow> (string \<Rightarrow> bool) \<Rightarrow> string \<Rightarrow> phoneme list \<Rightarrow> string list \<Rightarrow> bool \<Rightarrow> bool"
where
  "vc_shape_spec vowel_sound short_vowels_only w sounds allowed include_long_vowels =
     (length sounds = 2 \<and> vowel_sound (sounds ! 0) \<and> \<not> vowel_sound (sounds ! 1)
      \<and> (include_long_vowels \<or> short_vowels_only w)
      \<and> (length (drop 1 w) = 1 \<or> drop 1 w \<in> set allowed))"

section \<open>A small rule set for concrete runs\<close>

definition example_cmudict :: "(string \<times> phoneme list) list" where
  "example_cmudict =
     [(''at'', [''AE'', ''T'']),
      (''eat'', [''IY'', ''T'']),
      (''boat'', [''B'', ''OW'', ''T'']),
      (''bath'', [''B'', ''AE'', ''TH'']),
      (''k'', [''K'', ''EY'']),
      (''err'', [''ER'']),
      (''inch'', [''IH'', ''N'', ''CH'']),
      (''king'', [''K'', ''IH'', ''NG'']),
      (''unfit'', [''AH'', ''N'', ''F'', ''IH'', ''T'']),
      (''internet'', [''IH'', ''N'', ''T'', ''ER'', ''N'', ''EH'', ''T''])]"

definition example_tables :: tables where
  "example_tables =
     \<lparr>simplified_cmudict = map_of example_cmudict,
      prefixes =
        [(''un-'', [[''AH'', ''N'']]),
         (''in-'', [[''IH'', ''N'']]),
         (''inter-'', [[''IH'', ''N'', ''T'', ''ER'']])],
      suffixes = [(''-ing'', [[''IH'', ''NG'']])],
      letter_combinations =
        [(''er'', [[''ER'']]), (''oa'', [[''OW'']]), (''ea'', [[''IY'']])],
      short_vowels =
        [(''a'', [[''AE'']]), (''e'', [[''EH'']]), (''i'', [[''IH'']]),
         (''o'', [[''AA'']]), (''u'', [[''AH'']])],
      long_vowels =
        [(''a'', [[''EY'']]), (''e'', [[''IY'']]), (''i'', [[''AY'']]),
         (''o'', [[''OW'']]), (''u'', [[''UW'']])],
      hard_consonants =
        [(''b'', [[''B'']]), (''f'', [[''F'']]), (''k'', [[''K'']]),
         (''n'', [[''N'']]), (''t'', [[''T'']])],
      soft_consonants = [(''c'', [[''S'']]), (''g'', [[''JH'']])],
      all_vowel_sounds =
        [''AE'', ''EH'', ''IH'', ''AA'', ''AH'', ''EY'', ''IY'', ''AY'', ''OW'', ''UW'', ''ER'']\<rparr>"

text \<open>
  The three helper predicates as the specification describes them, and a namespace in
  which a caller has bound the three names to them.
\<close>

definition example_is_vowel_sound :: "phoneme \<Rightarrow> bool" where
  "example_is_vowel_sound p =
     (p \<in> set [''AE'', ''EH'', ''IH'', ''AA'', ''AH'', ''EY'', ''IY'', ''AY'', ''OW'', ''UW'',
                ''ER''])"

definition example_only_short_vowels :: "string \<Rightarrow> bool" where
  "example_only_short_vowels w =
     (case map_of example_cmudict w of
        None \<Rightarrow> False
      | Some ph \<Rightarrow> list_all (\<lambda>p. p \<notin> set [''EY'', ''IY'', ''AY'', ''OW'', ''UW'']) ph)"

definition example_is_vowel :: "char \<Rightarrow> bool" where
  "example_is_vowel c = (c \<in> set ''aeiou'')"

definition example_globals :: module_globals where
  "example_globals =
     \<lparr>is_vowel_sound = Some example_is_vowel_sound,
      only_short_vowels = Some example_only_short_vowels,
      is_vowel = Some example_is_vowel\<rparr>"

text \<open>The decoder object the example rules produce for the word \<open>inch\<close>.\<close>

definition inch_decoded :: decoder where
  "inch_decoded =
     \<lparr>word = ''inch'', word_phonemes = [''IH'', ''N'', ''CH''], remaining_letters = [],
      remaining_sounds = [], letter_parts = [''in-'', ''ch''],
      sound_parts = [[''IH'', ''N''], [''CH'']],
      indicators = [LETTER_COMBO, UNDECODABLE], decodable = False\<rparr>"

section \<open>The classifiers: \<open>is_cvc\<close> against \<open>is_vc\<close>\<close>

text \<open>
  C3. For every word, every allowed-blends argument and every long-vowel flag, and
  whatever the three helper names are bound to, \<open>is_cvc\<close> has the same outcome as
  \<open>is_vc\<close>: the same boolean or the same error. The statement
  after the first \<open>return\<close> of \<open>is_cvc\<close>, the three-letter shape test, never
  contributes to the result.
\<close>

theorem is_cvc_same_as_is_vc:
  "is_cvc G T w allowed_blends_and_digraphs include_long_vowels
     = is_vc G T w allowed_blends_and_digraphs include_long_vowels"
  by (simp add: is_cvc_def is_vc_def return_then_def Let_def split: option.splits)

theorem is_cvc_same_as_is_vc_witness:
  "is_cvc word_decoder_globals example_tables ''at'' None False = Inl NameError
   \<and> is_cvc example_globals example_tables ''at'' None False = Inr True"
  unfolding is_cvc_same_as_is_vc
  by (simp add: is_vc_def py_if_def py_or_def py_and_def py_not_def call_global_def
        word_decoder_globals_def example_globals_def example_is_vowel_sound_def
        example_only_short_vowels_def example_is_vowel_def example_tables_def
        example_cmudict_def)

section \<open>Unknown words\<close>

text \<open>
  C8. When the lowercase form of the word has no entry in the pronunciation dictionary,
  the constructor raises the word-not-found error and yields no decoder object; when it
  has an entry, the constructor raises no error at all.
\<close>

theorem unknown_word_error:
  "(simplified_cmudict T (lower w) = None \<longrightarrow> WordDecoder T n w = Some (Inl WordNotFound))
   \<and> (simplified_cmudict T (lower w) \<noteq> None \<longrightarrow> (\<forall>e. WordDecoder T n w \<noteq> Some (Inl e)))"
  by (auto simp: WordDecoder_def split: option.splits)

theorem unknown_word_error_witness:
  "WordDecoder example_tables 1 ''zzz'' = Some (Inl WordNotFound)
   \<and> WordDecoder example_tables 1 ''K'' \<noteq> Some (Inl WordNotFound)"
  using unknown_word_error [of example_tables "''zzz''" 1]
        unknown_word_error [of example_tables "''K''" 1]
  by (simp add: lower_def lower_char_def ascii_uppercase_def ascii_lowercase_def
        example_tables_def example_cmudict_def)

section \<open>The loop body, step by step\<close>

lemma lstrip_shorter:
  assumes "startswith s letters" and "letters \<noteq> []"
  shows "length (lstrip s letters) < length s"
proof -
  obtain c cs where l: "letters = c # cs" using assms(2) by (cases letters) auto
  with assms(1) obtain rest where s: "s = c # rest"
    by (cases s) (auto simp: startswith_def)
  have "length (dropWhile (\<lambda>x. x \<in> set letters) rest) \<le> length rest"
    by (rule length_dropWhile_le)
  then show ?thesis by (simp add: lstrip_def s l)
qed

lemma lstrip_le: "length (lstrip s chars) \<le> length s"
  by (simp add: lstrip_def length_dropWhile_le)

lemma rstrip_le: "length (rstrip s chars) \<le> length s"
  using length_dropWhile_le [of "\<lambda>c. c \<in> set chars" "rev s"] by (simp add: rstrip_def)

text \<open>What one successful pass of the combination search does to the state.\<close>

lemma combo_sounds_loop_Some:
  assumes "combo_sounds_loop letters sounds st = Some st'"
  shows "\<exists>sound. startswith (remaining_letters st) letters
           \<and> take (length sound) (remaining_sounds st) = sound
           \<and> st' = st\<lparr>letter_parts := letter_parts st @ [letters],
                      sound_parts := sound_parts st @ [sound],
                      indicators := indicators st @ [LETTER_COMBO],
                      remaining_letters := lstrip (remaining_letters st) letters,
                      remaining_sounds := drop (length sound) (remaining_sounds st)\<rparr>"
  using assms by (induction sounds) (auto split: if_splits)

lemma combos_loop_Some:
  assumes "combos_loop tbl st = Some st'"
  shows "\<exists>letters sound. letters \<in> fst ` set tbl
           \<and> startswith (remaining_letters st) letters
           \<and> take (length sound) (remaining_sounds st) = sound
           \<and> st' = st\<lparr>letter_parts := letter_parts st @ [letters],
                      sound_parts := sound_parts st @ [sound],
                      indicators := indicators st @ [LETTER_COMBO],
                      remaining_letters := lstrip (remaining_letters st) letters,
                      remaining_sounds := drop (length sound) (remaining_sounds st)\<rparr>"
  using assms
proof (induction tbl)
  case Nil
  then show ?case by simp
next
  case (Cons e tbl)
  obtain letters sounds where e: "e = (letters, sounds)" by (cases e)
  show ?case
  proof (cases "combo_sounds_loop letters sounds st")
    case None
    with Cons e show ?thesis by auto
  next
    case (Some a)
    with Cons.prems e have "a = st'" by simp
    with Some combo_sounds_loop_Some [of letters sounds st st'] e show ?thesis
      by auto
  qed
qed

lemma category_sounds_loop_cases:
  "category_sounds_loop l i sounds (st, m) = (st, m)
   \<or> (\<exists>sound. take (length sound) (remaining_sounds st) = sound
         \<and> category_sounds_loop l i sounds (st, m)
             = (process_single_letter_sound l sound i st, True))"
  by (induction sounds) auto

lemma categories_loop_cases:
  "categories_loop l cats (st, m) = (st, m)
   \<or> (\<exists>i sound. i \<in> fst ` set cats \<and> take (length sound) (remaining_sounds st) = sound
         \<and> categories_loop l cats (st, m)
             = (process_single_letter_sound l sound i st, True))"
proof (induction cats)
  case Nil
  then show ?case by simp
next
  case (Cons c cats)
  obtain i d where c: "c = (i, d)" by (cases c)
  from category_sounds_loop_cases [of l i "get_sounds d l" st m]
  show ?case
  proof
    assume same: "category_sounds_loop l i (get_sounds d l) (st, m) = (st, m)"
    show ?thesis
    proof (cases m)
      case True
      with same c show ?thesis by simp
    next
      case False
      with same c Cons.IH show ?thesis by auto
    qed
  next
    assume "\<exists>sound. take (length sound) (remaining_sounds st) = sound
         \<and> category_sounds_loop l i (get_sounds d l) (st, m)
             = (process_single_letter_sound l sound i st, True)"
    then obtain sound where s: "take (length sound) (remaining_sounds st) = sound"
      and r: "category_sounds_loop l i (get_sounds d l) (st, m)
                = (process_single_letter_sound l sound i st, True)"
      by blast
    have "categories_loop l (c # cats) (st, m) = (process_single_letter_sound l sound i st, True)"
      using c r by simp
    moreover have "i \<in> fst ` set (c # cats)" using c by simp
    ultimately show ?thesis using s by blast
  qed
qed

lemma SOUND_CATEGORIES_indicators:
  "i \<in> fst ` set (SOUND_CATEGORIES T) \<Longrightarrow> i \<noteq> UNDECODABLE"
  by (auto simp: SOUND_CATEGORIES_def)


text \<open>One pass of the loop body is one of five things.\<close>

lemma single_letter_cases:
  "single_letter T st = handle_undecodable st
   \<or> single_letter T st = st\<lparr>remaining_letters := drop 1 (remaining_letters st)\<rparr>
   \<or> (\<exists>l s i. i \<noteq> UNDECODABLE \<and> take (length s) (remaining_sounds st) = s
         \<and> single_letter T st = process_single_letter_sound l s i st)
   \<or> (\<exists>l s i l2 s2 i2. i \<noteq> UNDECODABLE \<and> take (length s) (remaining_sounds st) = s
         \<and> i2 \<noteq> UNDECODABLE
         \<and> take (length s2) (remaining_sounds (process_single_letter_sound l s i st)) = s2
         \<and> single_letter T st
             = process_single_letter_sound l2 s2 i2 (process_single_letter_sound l s i st))"
proof (cases "isalpha (hd (remaining_letters st))")
  case False
  then show ?thesis by (simp add: single_letter_def)
next
  case alpha: True
  let ?l = "[hd (remaining_letters st)]"
  let ?st1 = "process_single_letter_sound ?l [] SILENT_E st"
  define silent where
    "silent = ((length (remaining_sounds st) = 0
                  \<or> hd (remaining_sounds st) \<notin> set (all_vowel_sounds T))
               \<and> hd (remaining_letters st) = CHR ''e'')"
  have unf: "single_letter T st =
               (let sm1 = categories_loop ?l (SOUND_CATEGORIES T)
                            (if silent then (?st1, True) else (st, False))
                in if \<not> snd sm1 then handle_undecodable (fst sm1) else fst sm1)"
    unfolding silent_def single_letter_def Let_def using alpha by simp
  show ?thesis
  proof (cases silent)
    case True
    from categories_loop_cases [of ?l "SOUND_CATEGORIES T" ?st1 True]
    show ?thesis
    proof
      assume "categories_loop ?l (SOUND_CATEGORIES T) (?st1, True) = (?st1, True)"
      with unf True have "single_letter T st = ?st1" by simp
      moreover have "SILENT_E \<noteq> UNDECODABLE" by simp
      moreover have "take (length ([]::phoneme list)) (remaining_sounds st) = []" by simp
      ultimately show ?thesis by blast
    next
      assume "\<exists>i sound. i \<in> fst ` set (SOUND_CATEGORIES T)
                \<and> take (length sound) (remaining_sounds ?st1) = sound
                \<and> categories_loop ?l (SOUND_CATEGORIES T) (?st1, True)
                    = (process_single_letter_sound ?l sound i ?st1, True)"
      then obtain i sound where i: "i \<in> fst ` set (SOUND_CATEGORIES T)"
        and t: "take (length sound) (remaining_sounds ?st1) = sound"
        and r: "categories_loop ?l (SOUND_CATEGORIES T) (?st1, True)
                    = (process_single_letter_sound ?l sound i ?st1, True)"
        by blast
      from unf True r have "single_letter T st = process_single_letter_sound ?l sound i ?st1"
        by simp
      moreover have "SILENT_E \<noteq> UNDECODABLE" by simp
      moreover have "take (length ([]::phoneme list)) (remaining_sounds st) = []" by simp
      moreover have "i \<noteq> UNDECODABLE" using i by (rule SOUND_CATEGORIES_indicators)
      ultimately show ?thesis using t by blast
    qed
  next
    case False
    from categories_loop_cases [of ?l "SOUND_CATEGORIES T" st False]
    show ?thesis
    proof
      assume "categories_loop ?l (SOUND_CATEGORIES T) (st, False) = (st, False)"
      with unf False show ?thesis by simp
    next
      assume "\<exists>i sound. i \<in> fst ` set (SOUND_CATEGORIES T)
                \<and> take (length sound) (remaining_sounds st) = sound
                \<and> categories_loop ?l (SOUND_CATEGORIES T) (st, False)
                    = (process_single_letter_sound ?l sound i st, True)"
      then obtain i sound where i: "i \<in> fst ` set (SOUND_CATEGORIES T)"
        and t: "take (length sound) (remaining_sounds st) = sound"
        and r: "categories_loop ?l (SOUND_CATEGORIES T) (st, False)
                    = (process_single_letter_sound ?l sound i st, True)"
        by blast
      from unf False r have "single_letter T st = process_single_letter_sound ?l sound i st"
        by simp
      moreover have "i \<noteq> UNDECODABLE" using i by (rule SOUND_CATEGORIES_indicators)
      ultimately show ?thesis using t by blast
    qed
  qed
qed

text \<open>Each kind of step keeps the phonemes: emitted sounds plus buffer stay the same.\<close>

lemma process_single_letter_sound_sounds:
  assumes "take (length s) (remaining_sounds st) = s"
  shows "concat (sound_parts (process_single_letter_sound l s i st))
           @ remaining_sounds (process_single_letter_sound l s i st)
         = concat (sound_parts st) @ remaining_sounds st"
proof (cases "remaining_sounds st = []")
  case True
  with assms have "s = []" by simp
  with True show ?thesis by (simp add: process_single_letter_sound_def)
next
  case False
  have "s @ drop (length s) (remaining_sounds st) = remaining_sounds st"
    using assms append_take_drop_id [of "length s" "remaining_sounds st"] by simp
  with False show ?thesis by (simp add: process_single_letter_sound_def)
qed

lemma handle_undecodable_sounds:
  "concat (sound_parts (handle_undecodable st)) @ remaining_sounds (handle_undecodable st)
     = concat (sound_parts st) @ remaining_sounds st"
  by (simp add: handle_undecodable_def)

lemma single_letter_sounds:
  "concat (sound_parts (single_letter T st)) @ remaining_sounds (single_letter T st)
     = concat (sound_parts st) @ remaining_sounds st"
  using single_letter_cases [of T st]
  by (elim disjE exE conjE) (simp_all add: handle_undecodable_sounds process_single_letter_sound_sounds)

lemma combos_loop_sounds:
  assumes "combos_loop tbl st = Some st'"
  shows "concat (sound_parts st') @ remaining_sounds st'
           = concat (sound_parts st) @ remaining_sounds st"
proof -
  from combos_loop_Some [OF assms] obtain letters sound where
    t: "take (length sound) (remaining_sounds st) = sound" and
    st': "st' = st\<lparr>letter_parts := letter_parts st @ [letters],
                      sound_parts := sound_parts st @ [sound],
                      indicators := indicators st @ [LETTER_COMBO],
                      remaining_letters := lstrip (remaining_letters st) letters,
                      remaining_sounds := drop (length sound) (remaining_sounds st)\<rparr>"
    by blast
  have "sound @ drop (length sound) (remaining_sounds st) = remaining_sounds st"
    using t append_take_drop_id [of "length sound" "remaining_sounds st"] by simp
  then show ?thesis by (simp add: st')
qed

lemma body_iter_sounds:
  "concat (sound_parts (body_iter T st)) @ remaining_sounds (body_iter T st)
     = concat (sound_parts st) @ remaining_sounds st"
  by (simp add: body_iter_def single_letter_sounds combos_loop_sounds split: option.splits)

lemma body_loop_sounds:
  "body_loop T n st = Some st' \<Longrightarrow>
     concat (sound_parts st') @ remaining_sounds st'
       = concat (sound_parts st) @ remaining_sounds st"
proof (induction n arbitrary: st)
  case 0
  then show ?case by (simp split: if_splits)
next
  case (Suc n)
  show ?case
  proof (cases "length (remaining_letters st) > 0")
    case True
    with Suc.prems have "body_loop T n (body_iter T st) = Some st'" by simp
    from Suc.IH [OF this] show ?thesis by (simp add: body_iter_sounds)
  next
    case False
    with Suc.prems show ?thesis by simp
  qed
qed

lemma body_loop_empties:
  "body_loop T n st = Some st' \<Longrightarrow> remaining_letters st' = []"
  by (induction n arbitrary: st) (auto split: if_splits)

text \<open>Each pass shortens the buffer when no combination has an empty key.\<close>

lemma single_letter_shorter:
  assumes "remaining_letters st \<noteq> []"
  shows "length (remaining_letters (single_letter T st)) < length (remaining_letters st)"
  using single_letter_cases [of T st] assms
  by (elim disjE exE conjE)
     (simp_all add: handle_undecodable_def process_single_letter_sound_def)

lemma combos_loop_shorter:
  assumes "combos_loop tbl st = Some st'" and "[] \<notin> fst ` set tbl"
  shows "length (remaining_letters st') < length (remaining_letters st)"
proof -
  from combos_loop_Some [OF assms(1)] obtain letters sound where
    l: "letters \<in> fst ` set tbl" and sw: "startswith (remaining_letters st) letters" and
    st': "st' = st\<lparr>letter_parts := letter_parts st @ [letters],
                      sound_parts := sound_parts st @ [sound],
                      indicators := indicators st @ [LETTER_COMBO],
                      remaining_letters := lstrip (remaining_letters st) letters,
                      remaining_sounds := drop (length sound) (remaining_sounds st)\<rparr>"
    by blast
  from l assms(2) have "letters \<noteq> []" by force
  from lstrip_shorter [OF sw this] show ?thesis by (simp add: st')
qed

lemma body_iter_shorter:
  assumes "[] \<notin> fst ` set (letter_combinations T)" and "remaining_letters st \<noteq> []"
  shows "length (remaining_letters (body_iter T st)) < length (remaining_letters st)"
  using assms
  by (auto simp: body_iter_def single_letter_shorter combos_loop_shorter split: option.splits)

lemma body_loop_enough:
  assumes "[] \<notin> fst ` set (letter_combinations T)"
  shows "length (remaining_letters st) \<le> n \<Longrightarrow> \<exists>st'. body_loop T n st = Some st'"
proof (induction n arbitrary: st)
  case 0
  then show ?case by simp
next
  case (Suc n)
  show ?case
  proof (cases "remaining_letters st = []")
    case True
    then show ?thesis by simp
  next
    case False
    from body_iter_shorter [OF assms False] Suc.prems
    have "length (remaining_letters (body_iter T st)) \<le> n" by simp
    from Suc.IH [OF this] False show ?thesis by simp
  qed
qed

section \<open>The affix stage\<close>

text \<open>A property kept by every matching step is kept by the affix loops.\<close>

lemma affix_sounds_loop_preserves:
  assumes "Q (st, ap)"
    and "\<And>st ap affix_sound.
           Q (st, ap) \<Longrightarrow>
           (if is_prefix
            then startswith (word st) (remove_hyphens affix)
                 \<and> take (length affix_sound) (word_phonemes st) = affix_sound
            else endswith (word st) (remove_hyphens affix)
                 \<and> slice_last (length affix_sound) (word_phonemes st) = affix_sound) \<Longrightarrow>
           Q (st\<lparr>remaining_letters :=
                   (if is_prefix then lstrip (remaining_letters st) (remove_hyphens affix)
                    else rstrip (remaining_letters st) (remove_hyphens affix)),
                 remaining_sounds :=
                   (if is_prefix then drop (length affix_sound) (remaining_sounds st)
                    else slice_but_last (length affix_sound) (remaining_sounds st))\<rparr>,
              ap\<lparr>affix_letter_parts := affix_letter_parts ap @ [affix],
                 affix_sound_parts := affix_sound_parts ap @ [affix_sound],
                 affix_indicators := affix_indicators ap @ [LETTER_COMBO]\<rparr>)"
  shows "Q (affix_sounds_loop is_prefix affix sounds (st, ap))"
  using assms(1)
proof (induction sounds)
  case Nil
  then show ?case by simp
next
  case (Cons s sounds)
  show ?case
  proof (cases "if is_prefix
            then startswith (word st) (remove_hyphens affix)
                 \<and> take (length s) (word_phonemes st) = s
            else endswith (word st) (remove_hyphens affix)
                 \<and> slice_last (length s) (word_phonemes st) = s")
    case True
    from assms(2) [OF Cons.prems True] True show ?thesis
      by (cases is_prefix) (simp_all add: Let_def)
  next
    case False
    then have "affix_sounds_loop is_prefix affix (s # sounds) (st, ap)
                 = affix_sounds_loop is_prefix affix sounds (st, ap)"
      by (cases is_prefix) (auto simp: Let_def)
    with Cons show ?thesis by simp
  qed
qed

lemma affixes_loop_preserves:
  assumes "Q sa"
    and "\<And>st ap affix affix_sound.
           Q (st, ap) \<Longrightarrow>
           (if is_prefix
            then startswith (word st) (remove_hyphens affix)
                 \<and> take (length affix_sound) (word_phonemes st) = affix_sound
            else endswith (word st) (remove_hyphens affix)
                 \<and> slice_last (length affix_sound) (word_phonemes st) = affix_sound) \<Longrightarrow>
           Q (st\<lparr>remaining_letters :=
                   (if is_prefix then lstrip (remaining_letters st) (remove_hyphens affix)
                    else rstrip (remaining_letters st) (remove_hyphens affix)),
                 remaining_sounds :=
                   (if is_prefix then drop (length affix_sound) (remaining_sounds st)
                    else slice_but_last (length affix_sound) (remaining_sounds st))\<rparr>,
              ap\<lparr>affix_letter_parts := affix_letter_parts ap @ [affix],
                 affix_sound_parts := affix_sound_parts ap @ [affix_sound],
                 affix_indicators := affix_indicators ap @ [LETTER_COMBO]\<rparr>)"
  shows "Q (affixes_loop is_prefix tbl sa)"
  using assms(1)
proof (induction tbl arbitrary: sa)
  case Nil
  then show ?case by simp
next
  case (Cons e tbl)
  obtain affix sounds where e: "e = (affix, sounds)" by (cases e)
  obtain st ap where sa: "sa = (st, ap)" by (cases sa)
  have "Q (affix_sounds_loop is_prefix affix sounds (st, ap))"
    by (rule affix_sounds_loop_preserves) (use Cons.prems sa assms(2) in auto)
  from Cons.IH [OF this] show ?case by (simp add: e sa)
qed

text \<open>The affix stage touches the two buffers only, and never lengthens the letters.\<close>

lemma process_affixes_frame:
  "letter_parts (fst (process_affixes tbl p st)) = letter_parts st
   \<and> sound_parts (fst (process_affixes tbl p st)) = sound_parts st
   \<and> indicators (fst (process_affixes tbl p st)) = indicators st
   \<and> decodable (fst (process_affixes tbl p st)) = decodable st
   \<and> word (fst (process_affixes tbl p st)) = word st
   \<and> word_phonemes (fst (process_affixes tbl p st)) = word_phonemes st
   \<and> length (remaining_letters (fst (process_affixes tbl p st)))
       \<le> length (remaining_letters st)"
  unfolding process_affixes_def
  by (rule affixes_loop_preserves
        [where Q = "\<lambda>sa. letter_parts (fst sa) = letter_parts st
           \<and> sound_parts (fst sa) = sound_parts st
           \<and> indicators (fst sa) = indicators st
           \<and> decodable (fst sa) = decodable st
           \<and> word (fst sa) = word st
           \<and> word_phonemes (fst sa) = word_phonemes st
           \<and> length (remaining_letters (fst sa)) \<le> length (remaining_letters st)"])
     (auto intro: order_trans [OF lstrip_le] order_trans [OF rstrip_le])

lemma process_affixes_indicators:
  "affix_indicators (snd (process_affixes tbl p st))
     = replicate (length (affix_letter_parts (snd (process_affixes tbl p st)))) LETTER_COMBO
   \<and> length (affix_sound_parts (snd (process_affixes tbl p st)))
       = length (affix_letter_parts (snd (process_affixes tbl p st)))"
  unfolding process_affixes_def
  by (rule affixes_loop_preserves
        [where Q = "\<lambda>sa. affix_indicators (snd sa)
                            = replicate (length (affix_letter_parts (snd sa))) LETTER_COMBO
                          \<and> length (affix_sound_parts (snd sa))
                              = length (affix_letter_parts (snd sa))"])
     (auto simp: replicate_append_same)


text \<open>The phonemes through the affix stage.\<close>

lemma prefix_stage_sounds:
  assumes "word_phonemes st = ph"
  shows "remaining_sounds (fst (process_affixes tbl True st))
           = drop (length (concat (affix_sound_parts (snd (process_affixes tbl True st)))))
               (remaining_sounds st)
         \<and> (\<forall>s \<in> set (affix_sound_parts (snd (process_affixes tbl True st))).
               take (length s) ph = s)"
  unfolding process_affixes_def
  by (rule affixes_loop_preserves
        [where Q = "\<lambda>sa. word_phonemes (fst sa) = ph
           \<and> remaining_sounds (fst sa)
               = drop (length (concat (affix_sound_parts (snd sa)))) (remaining_sounds st)
           \<and> (\<forall>s \<in> set (affix_sound_parts (snd sa)). take (length s) ph = s)", THEN conjunct2])
     (auto simp: assms add.commute)

lemma suffix_stage_sounds:
  assumes "word_phonemes st = ph"
  shows "(affix_sound_parts (snd (process_affixes tbl False st)) = []
            \<and> remaining_sounds (fst (process_affixes tbl False st)) = remaining_sounds st)
         \<or> (\<exists>s. affix_sound_parts (snd (process_affixes tbl False st)) = [s]
               \<and> slice_last (length s) ph = s
               \<and> remaining_sounds (fst (process_affixes tbl False st))
                   = slice_but_last (length s) (remaining_sounds st))
         \<or> 2 \<le> length (affix_sound_parts (snd (process_affixes tbl False st)))"
  unfolding process_affixes_def
  by (rule affixes_loop_preserves
        [where Q = "\<lambda>sa. word_phonemes (fst sa) = ph
           \<and> ((affix_sound_parts (snd sa) = []
                  \<and> remaining_sounds (fst sa) = remaining_sounds st)
               \<or> (\<exists>s. affix_sound_parts (snd sa) = [s]
                     \<and> slice_last (length s) ph = s
                     \<and> remaining_sounds (fst sa) = slice_but_last (length s) (remaining_sounds st))
               \<or> 2 \<le> length (affix_sound_parts (snd sa)))", THEN conjunct2])
     (auto simp: assms)

lemma split_three:
  assumes "a + k \<le> length xs"
  shows "take a xs @ take (length xs - a - k) (drop a xs) @ drop (length xs - k) xs = xs"
proof -
  have "take (length xs - a - k) (drop a xs) @ drop (length xs - a - k) (drop a xs) = drop a xs"
    by (rule append_take_drop_id)
  moreover have "drop (length xs - a - k) (drop a xs) = drop (length xs - k) xs"
    using assms by (simp add: add.commute)
  ultimately show ?thesis by simp
qed

lemma affix_stage_sounds:
  assumes P: "P = affix_sound_parts (prefix_parts T (init_decoder w ph))"
      and S: "S = affix_sound_parts (suffix_parts T (init_decoder w ph))"
      and "length P \<le> 1" and "length S \<le> 1"
      and "length (concat P) + length (concat S) \<le> length ph"
  shows "concat P @ remaining_sounds (body_start T (init_decoder w ph)) @ concat S = ph"
proof -
  let ?st0 = "init_decoder w ph"
  let ?st1 = "fst (process_affixes (prefixes T) True ?st0)"
  have ph0: "word_phonemes ?st0 = ph" and r0: "remaining_sounds ?st0 = ph"
    by (simp_all add: init_decoder_def)
  have ph1: "word_phonemes ?st1 = ph"
    using process_affixes_frame [of "prefixes T" True ?st0] ph0 by simp
  from prefix_stage_sounds [OF ph0, of "prefixes T"]
  have r1: "remaining_sounds ?st1 = drop (length (concat P)) ph"
    and tk: "\<forall>s \<in> set P. take (length s) ph = s"
    by (simp_all add: P prefix_parts_def r0)
  have cP: "concat P = take (length (concat P)) ph"
  proof (cases P)
    case Nil
    then show ?thesis by simp
  next
    case (Cons s rest)
    with assms(3) have "P = [s]" by simp
    with tk show ?thesis by simp
  qed
  from suffix_stage_sounds [OF ph1, of "suffixes T"]
  consider (none) "S = []" "remaining_sounds (body_start T ?st0) = remaining_sounds ?st1"
    | (one) s where "S = [s]" "slice_last (length s) ph = s"
        "remaining_sounds (body_start T ?st0) = slice_but_last (length s) (remaining_sounds ?st1)"
    | (more) "2 \<le> length S"
    unfolding S suffix_parts_def body_start_def by blast
  then show ?thesis
  proof cases
    case none
    have "take (length (concat P)) ph @ drop (length (concat P)) ph = ph" by simp
    with cP none r1 show ?thesis by simp
  next
    case one
    show ?thesis
    proof (cases "length s = 0")
      case True
      with one(2) have "ph = []" by (simp add: slice_last_def)
      with one True cP r1 show ?thesis by (simp add: slice_but_last_def)
    next
      case False
      with one(2) have s: "s = drop (length ph - length s) ph" by (simp add: slice_last_def)
      from assms(5) one(1) have le: "length (concat P) + length s \<le> length ph" by simp
      have "take (length (concat P)) ph
              @ take (length ph - length (concat P) - length s) (drop (length (concat P)) ph)
              @ drop (length ph - length s) ph = ph"
        by (rule split_three [OF le])
      moreover have "remaining_sounds (body_start T ?st0)
              = take (length ph - length (concat P) - length s) (drop (length (concat P)) ph)"
        using one(3) r1 False by (simp add: slice_but_last_def)
      ultimately show ?thesis using cP s one(1) by simp
    qed
  next
    case more
    with assms(4) show ?thesis by simp
  qed
qed

section \<open>The stages of \<open>decode\<close> and the undecodable exit\<close>

lemma decode_stages:
  "decode T n st =
     (case body_loop T n (body_start T st) of
        None \<Rightarrow> None
      | Some st3 \<Rightarrow>
          Some (st3\<lparr>letter_parts :=
                      affix_letter_parts (prefix_parts T st) @ letter_parts st3
                        @ affix_letter_parts (suffix_parts T st),
                    sound_parts :=
                      affix_sound_parts (prefix_parts T st) @ sound_parts st3
                        @ affix_sound_parts (suffix_parts T st),
                    indicators :=
                      affix_indicators (prefix_parts T st) @ indicators st3
                        @ affix_indicators (suffix_parts T st)\<rparr>))"
  unfolding decode_def prefix_parts_def suffix_parts_def body_start_def Let_def
  by (simp add: case_prod_beta)

lemma body_start_frame:
  "letter_parts (body_start T st) = letter_parts st
   \<and> sound_parts (body_start T st) = sound_parts st
   \<and> indicators (body_start T st) = indicators st
   \<and> decodable (body_start T st) = decodable st
   \<and> length (remaining_letters (body_start T st)) \<le> length (remaining_letters st)"
  using process_affixes_frame [of "prefixes T" True st]
        process_affixes_frame [of "suffixes T" False "fst (process_affixes (prefixes T) True st)"]
  by (simp add: body_start_def)

text \<open>A pass either gives up, or leaves the flag alone and emits no undecodable segment.\<close>

lemma body_iter_undecodable:
  "body_iter T st = handle_undecodable st
   \<or> (decodable (body_iter T st) = decodable st
       \<and> (\<exists>new. indicators (body_iter T st) = indicators st @ new \<and> UNDECODABLE \<notin> set new))"
proof (cases "combos_loop (letter_combinations T) st")
  case None
  then have b: "body_iter T st = single_letter T st" by (simp add: body_iter_def)
  from single_letter_cases [of T st] show ?thesis
    unfolding b
    by (elim disjE exE conjE) (simp_all add: process_single_letter_sound_def)
next
  case (Some st')
  then have b: "body_iter T st = st'" by (simp add: body_iter_def)
  from combos_loop_Some [OF Some] show ?thesis unfolding b by auto
qed

lemma body_loop_undecodable:
  assumes "body_loop T n st = Some st'"
      and "decodable st" and "UNDECODABLE \<notin> set (indicators st)"
  shows "(decodable st' \<and> UNDECODABLE \<notin> set (indicators st'))
         \<or> (\<exists>k<n. remaining_letters ((body_iter T ^^ k) st) \<noteq> []
                \<and> decodable ((body_iter T ^^ k) st)
                \<and> UNDECODABLE \<notin> set (indicators ((body_iter T ^^ k) st))
                \<and> st' = handle_undecodable ((body_iter T ^^ k) st))"
  using assms
proof (induction n arbitrary: st)
  case 0
  then show ?case by (simp split: if_splits)
next
  case (Suc n)
  show ?case
  proof (cases "remaining_letters st = []")
    case True
    with Suc.prems show ?thesis by simp
  next
    case False
    with Suc.prems have run: "body_loop T n (body_iter T st) = Some st'" by simp
    from body_iter_undecodable [of T st] show ?thesis
    proof
      assume h: "body_iter T st = handle_undecodable st"
      then have "remaining_letters (body_iter T st) = []" by (simp add: handle_undecodable_def)
      with run have "st' = body_iter T st" by (cases n) simp_all
      with h have "st' = handle_undecodable ((body_iter T ^^ 0) st)" by simp
      moreover have "remaining_letters ((body_iter T ^^ 0) st) \<noteq> []" using False by simp
      moreover have "decodable ((body_iter T ^^ 0) st)"
        "UNDECODABLE \<notin> set (indicators ((body_iter T ^^ 0) st))"
        using Suc.prems by simp_all
      ultimately show ?thesis by blast
    next
      assume "decodable (body_iter T st) = decodable st
        \<and> (\<exists>new. indicators (body_iter T st) = indicators st @ new \<and> UNDECODABLE \<notin> set new)"
      with Suc.prems have "decodable (body_iter T st)"
        "UNDECODABLE \<notin> set (indicators (body_iter T st))" by auto
      from Suc.IH [OF run this]
      show ?thesis
      proof
        assume "decodable st' \<and> UNDECODABLE \<notin> set (indicators st')"
        then show ?thesis by simp
      next
        assume "\<exists>k<n. remaining_letters ((body_iter T ^^ k) (body_iter T st)) \<noteq> []
                \<and> decodable ((body_iter T ^^ k) (body_iter T st))
                \<and> UNDECODABLE \<notin> set (indicators ((body_iter T ^^ k) (body_iter T st)))
                \<and> st' = handle_undecodable ((body_iter T ^^ k) (body_iter T st))"
        then obtain k where k: "k < n"
          and f: "remaining_letters ((body_iter T ^^ k) (body_iter T st)) \<noteq> []"
             "decodable ((body_iter T ^^ k) (body_iter T st))"
             "UNDECODABLE \<notin> set (indicators ((body_iter T ^^ k) (body_iter T st)))"
             "st' = handle_undecodable ((body_iter T ^^ k) (body_iter T st))"
          by blast
        have "(body_iter T ^^ k) (body_iter T st) = (body_iter T ^^ Suc k) st"
          by (simp add: funpow_swap1)
        with f k have "Suc k < Suc n
           \<and> remaining_letters ((body_iter T ^^ Suc k) st) \<noteq> []
           \<and> decodable ((body_iter T ^^ Suc k) st)
           \<and> UNDECODABLE \<notin> set (indicators ((body_iter T ^^ Suc k) st))
           \<and> st' = handle_undecodable ((body_iter T ^^ Suc k) st)"
          by simp
        then show ?thesis by blast
      qed
    qed
  qed
qed

section \<open>Concrete runs\<close>

text \<open>The definitions a concrete run unfolds.\<close>

lemmas run_defs = WordDecoder_def decode_def process_affixes_def init_decoder_def body_iter_def
  single_letter_def handle_undecodable_def process_single_letter_sound_def SOUND_CATEGORIES_def
  get_sounds_def startswith_def endswith_def lstrip_def rstrip_def remove_hyphens_def
  slice_last_def slice_but_last_def lower_def lower_char_def isalpha_def ascii_uppercase_def
  ascii_lowercase_def example_tables_def example_cmudict_def Let_def

section \<open>Letters: what the strip calls remove\<close>

text \<open>
  C1 asks that the letter parts, concatenated, give back the lowercase word up to skipped
  punctuation. The decoder removes a matched combination with \<open>lstrip\<close>, which strips
  every leading character that occurs in the combination, not the combination itself. With
  the combination \<open>er\<close> and the word \<open>err\<close> the whole buffer is stripped after one
  segment: the letter parts are \<open>er\<close> only, and the word still counts as decodable.
\<close>

theorem err_loses_a_letter:
  "WordDecoder example_tables 3 ''err'' =
     Some (Inr \<lparr>word = ''err'', word_phonemes = [''ER''], remaining_letters = [],
                 remaining_sounds = [], letter_parts = [''er''], sound_parts = [[''ER'']],
                 indicators = [LETTER_COMBO], decodable = True\<rparr>)"
  by (simp add: run_defs eval_nat_numeral)

section \<open>Affix stripping and its \<open>break\<close>\<close>

text \<open>
  C2 asks that at most one prefix is removed. The \<open>break\<close> of \<open>process_affixes\<close> leaves
  the loop over the phoneme tuples of one affix only; the loop over the table goes on. For
  the word \<open>internet\<close> both \<open>in-\<close> and \<open>inter-\<close> match: two prefix segments are
  returned, the letters are stripped twice and six phonemes are dropped from the buffer.
\<close>

theorem internet_two_prefixes:
  "process_affixes (prefixes example_tables) True
      (init_decoder ''internet'' [''IH'', ''N'', ''T'', ''ER'', ''N'', ''EH'', ''T''])
   = (\<lparr>word = ''internet'', word_phonemes = [''IH'', ''N'', ''T'', ''ER'', ''N'', ''EH'', ''T''],
       remaining_letters = [], remaining_sounds = [''T''], letter_parts = [], sound_parts = [],
       indicators = [], decodable = True\<rparr>,
      \<lparr>affix_letter_parts = [''in-'', ''inter-''],
       affix_sound_parts = [[''IH'', ''N''], [''IH'', ''N'', ''T'', ''ER'']],
       affix_indicators = [LETTER_COMBO, LETTER_COMBO]\<rparr>)"
  by (simp add: run_defs)

section \<open>The classifiers and the names they call\<close>



text \<open>
  C5 asks that \<open>is_vc\<close> returns true exactly for the words of the VC shape. The word
  \<open>at\<close>, with the phonemes AE and T, has that shape: a short vowel sound, a consonant
  sound, one letter after the first. In the module as it is written, \<open>is_vc\<close> raises
  \<open>NameError\<close> for it, at the call of \<open>is_vowel_sound\<close> in its first test; it does so
  for every word with two phonemes, and so never returns true.
\<close>

theorem is_vc_at_raises_name_error:
  "simplified_cmudict example_tables ''at'' = Some [''AE'', ''T'']
   \<and> vc_shape_spec example_is_vowel_sound example_only_short_vowels ''at'' [''AE'', ''T'']
        [] False
   \<and> is_vc word_decoder_globals example_tables ''at'' None False = Inl NameError"
  by (simp add: is_vc_def vc_shape_spec_def py_if_def py_or_def py_and_def py_not_def
        call_global_def word_decoder_globals_def example_is_vowel_sound_def
        example_only_short_vowels_def example_tables_def example_cmudict_def)

section \<open>The consistency error\<close>




section \<open>Indicators of affix segments\<close>

text \<open>
  C10. Every segment that \<open>process_affixes\<close> returns, for prefixes and for suffixes,
  carries the indicator \<open>LETTER_COMBO\<close>, one per letter part and sound part. A segment
  of the body stage that comes from the letter-combination table carries the same
  indicator, and the indicator type has the seven listed values only, none of them for
  prefixes or suffixes.
\<close>

theorem affix_segments_are_letter_combos:
  "affix_indicators (snd (process_affixes affixes_dict is_prefix st))
     = replicate (length (affix_letter_parts (snd (process_affixes affixes_dict is_prefix st))))
         LETTER_COMBO
   \<and> length (affix_sound_parts (snd (process_affixes affixes_dict is_prefix st)))
       = length (affix_letter_parts (snd (process_affixes affixes_dict is_prefix st)))
   \<and> (combos_loop tbl body = Some body' \<longrightarrow>
        indicators body' = indicators body @ [LETTER_COMBO])
   \<and> (UNIV :: Indicator set)
       = {SHORT_VOWEL, LONG_VOWEL, HARD_CONSONANT, SOFT_CONSONANT, LETTER_COMBO, SILENT_E,
          UNDECODABLE}"
proof -
  have "(UNIV :: Indicator set)
       = {SHORT_VOWEL, LONG_VOWEL, HARD_CONSONANT, SOFT_CONSONANT, LETTER_COMBO, SILENT_E,
          UNDECODABLE}"
    using Indicator.exhaust by auto
  moreover have "combos_loop tbl body = Some body' \<longrightarrow>
                   indicators body' = indicators body @ [LETTER_COMBO]"
    using combos_loop_Some [of tbl body body'] by auto
  ultimately show ?thesis
    using process_affixes_indicators [of affixes_dict is_prefix st] by simp
qed

theorem affix_segments_are_letter_combos_witness:
  "affix_indicators (snd (process_affixes (prefixes example_tables) True
       (init_decoder ''internet'' [''IH'', ''N'', ''T'', ''ER'', ''N'', ''EH'', ''T''])))
     = [LETTER_COMBO, LETTER_COMBO]
   \<and> combos_loop (letter_combinations example_tables) (init_decoder ''eat'' [''IY'', ''T''])
       = Some (init_decoder ''eat'' [''IY'', ''T'']
                 \<lparr>letter_parts := [''ea''], sound_parts := [[''IY'']],
                  indicators := [LETTER_COMBO], remaining_letters := ''t'',
                  remaining_sounds := [''T'']\<rparr>)
   \<and> indicators (init_decoder ''eat'' [''IY'', ''T'']
                 \<lparr>letter_parts := [''ea''], sound_parts := [[''IY'']],
                  indicators := [LETTER_COMBO], remaining_letters := ''t'',
                  remaining_sounds := [''T'']\<rparr>)
       = indicators (init_decoder ''eat'' [''IY'', ''T'']) @ [LETTER_COMBO]"
proof -
  let ?st = "init_decoder ''internet'' [''IH'', ''N'', ''T'', ''ER'', ''N'', ''EH'', ''T'']"
  let ?e = "init_decoder ''eat'' [''IY'', ''T'']"
  let ?e' = "?e\<lparr>letter_parts := [''ea''], sound_parts := [[''IY'']],
                  indicators := [LETTER_COMBO], remaining_letters := ''t'',
                  remaining_sounds := [''T'']\<rparr>"
  have n: "length (affix_letter_parts (snd (process_affixes (prefixes example_tables) True ?st)))
             = 2"
    by (simp add: run_defs)
  have c: "combos_loop (letter_combinations example_tables) ?e = Some ?e'"
    by (simp add: run_defs)
  from affix_segments_are_letter_combos
         [of "prefixes example_tables" True ?st "letter_combinations example_tables" ?e ?e']
       n
  have "affix_indicators (snd (process_affixes (prefixes example_tables) True ?st))
          = replicate 2 LETTER_COMBO"
    by simp
  moreover from affix_segments_are_letter_combos
         [of "prefixes example_tables" True ?st "letter_combinations example_tables" ?e ?e'] c
  have "indicators ?e' = indicators ?e @ [LETTER_COMBO]" by blast
  ultimately show ?thesis using c by (simp add: eval_nat_numeral)
qed

section \<open>The undecodable exit\<close>

text \<open>
  C7. In every decoded word the indicator \<open>UNDECODABLE\<close> occurs at most once, and it
  occurs exactly when \<open>decodable\<close> is false. In that case it was emitted in the last pass
  of the loop: with \<open>mid\<close> the state in which that pass started, its letter part is the
  whole letter buffer of \<open>mid\<close> and its sound part the whole phoneme buffer of \<open>mid\<close>,
  both buffers are empty afterwards, and only the suffix segments follow it.
\<close>

theorem undecodable_segment_is_final:
  assumes "decode T n (init_decoder w ph) = Some r"
  shows "count_list (indicators r) UNDECODABLE \<le> 1
       \<and> (decodable r \<longleftrightarrow> UNDECODABLE \<notin> set (indicators r))
       \<and> (\<not> decodable r \<longrightarrow>
            (\<exists>k<n. \<exists>mid. mid = (body_iter T ^^ k) (body_start T (init_decoder w ph))
               \<and> remaining_letters mid \<noteq> []
               \<and> UNDECODABLE \<notin> set (indicators mid)
               \<and> letter_parts r
                   = affix_letter_parts (prefix_parts T (init_decoder w ph))
                       @ letter_parts mid @ [remaining_letters mid]
                       @ affix_letter_parts (suffix_parts T (init_decoder w ph))
               \<and> sound_parts r
                   = affix_sound_parts (prefix_parts T (init_decoder w ph))
                       @ sound_parts mid @ [remaining_sounds mid]
                       @ affix_sound_parts (suffix_parts T (init_decoder w ph))
               \<and> indicators r
                   = affix_indicators (prefix_parts T (init_decoder w ph))
                       @ indicators mid @ [UNDECODABLE]
                       @ affix_indicators (suffix_parts T (init_decoder w ph))
               \<and> remaining_letters r = [] \<and> remaining_sounds r = []))"
proof -
  let ?st0 = "init_decoder w ph"
  let ?pre = "prefix_parts T ?st0" and ?suf = "suffix_parts T ?st0"
  from assms obtain st3 where run: "body_loop T n (body_start T ?st0) = Some st3"
    and r: "r = st3\<lparr>letter_parts := affix_letter_parts ?pre @ letter_parts st3
                                       @ affix_letter_parts ?suf,
                    sound_parts := affix_sound_parts ?pre @ sound_parts st3
                                       @ affix_sound_parts ?suf,
                    indicators := affix_indicators ?pre @ indicators st3
                                       @ affix_indicators ?suf\<rparr>"
    by (auto simp: decode_stages split: option.splits)
  have start: "decodable (body_start T ?st0)" "UNDECODABLE \<notin> set (indicators (body_start T ?st0))"
    using body_start_frame [of T ?st0] by (simp_all add: init_decoder_def)
  have pre: "UNDECODABLE \<notin> set (affix_indicators ?pre)"
    using process_affixes_indicators [of "prefixes T" True ?st0]
    by (simp add: prefix_parts_def)
  have suf: "UNDECODABLE \<notin> set (affix_indicators ?suf)"
    using process_affixes_indicators
            [of "suffixes T" False "fst (process_affixes (prefixes T) True ?st0)"]
    by (simp add: suffix_parts_def)
  from body_loop_undecodable [OF run start] show ?thesis
  proof
    assume "decodable st3 \<and> UNDECODABLE \<notin> set (indicators st3)"
    with pre suf show ?thesis by (simp add: r)
  next
    assume "\<exists>k<n. remaining_letters ((body_iter T ^^ k) (body_start T ?st0)) \<noteq> []
                \<and> decodable ((body_iter T ^^ k) (body_start T ?st0))
                \<and> UNDECODABLE \<notin> set (indicators ((body_iter T ^^ k) (body_start T ?st0)))
                \<and> st3 = handle_undecodable ((body_iter T ^^ k) (body_start T ?st0))"
    then obtain k where k: "k < n"
      and nonempty: "remaining_letters ((body_iter T ^^ k) (body_start T ?st0)) \<noteq> []"
      and clean: "UNDECODABLE \<notin> set (indicators ((body_iter T ^^ k) (body_start T ?st0)))"
      and st3: "st3 = handle_undecodable ((body_iter T ^^ k) (body_start T ?st0))"
      by blast
    let ?mid = "(body_iter T ^^ k) (body_start T ?st0)"
    have c: "count_list (indicators r) UNDECODABLE \<le> 1"
      using pre suf clean by (simp add: r st3 handle_undecodable_def)
    have d: "\<not> decodable r" "UNDECODABLE \<in> set (indicators r)"
      by (simp_all add: r st3 handle_undecodable_def)
    have parts: "letter_parts r = affix_letter_parts ?pre @ letter_parts ?mid
                    @ [remaining_letters ?mid] @ affix_letter_parts ?suf"
      "sound_parts r = affix_sound_parts ?pre @ sound_parts ?mid
                    @ [remaining_sounds ?mid] @ affix_sound_parts ?suf"
      "indicators r = affix_indicators ?pre @ indicators ?mid
                    @ [UNDECODABLE] @ affix_indicators ?suf"
      "remaining_letters r = []" "remaining_sounds r = []"
      by (simp_all add: r st3 handle_undecodable_def)
    from k nonempty clean parts
    have "\<exists>k<n. \<exists>mid. mid = (body_iter T ^^ k) (body_start T ?st0)
               \<and> remaining_letters mid \<noteq> []
               \<and> UNDECODABLE \<notin> set (indicators mid)
               \<and> letter_parts r = affix_letter_parts ?pre @ letter_parts mid
                    @ [remaining_letters mid] @ affix_letter_parts ?suf
               \<and> sound_parts r = affix_sound_parts ?pre @ sound_parts mid
                    @ [remaining_sounds mid] @ affix_sound_parts ?suf
               \<and> indicators r = affix_indicators ?pre @ indicators mid
                    @ [UNDECODABLE] @ affix_indicators ?suf
               \<and> remaining_letters r = [] \<and> remaining_sounds r = []"
      by blast
    with c d show ?thesis by blast
  qed
qed

theorem undecodable_segment_is_final_witness:
  "decode example_tables 2 (init_decoder ''inch'' [''IH'', ''N'', ''CH'']) = Some inch_decoded
   \<and> \<not> decodable inch_decoded
   \<and> count_list (indicators inch_decoded) UNDECODABLE \<le> 1
   \<and> (\<exists>k<2. \<exists>mid.
         mid = (body_iter example_tables ^^ k)
                 (body_start example_tables (init_decoder ''inch'' [''IH'', ''N'', ''CH'']))
         \<and> remaining_letters mid \<noteq> []
         \<and> sound_parts inch_decoded
             = affix_sound_parts
                 (prefix_parts example_tables (init_decoder ''inch'' [''IH'', ''N'', ''CH'']))
               @ sound_parts mid @ [remaining_sounds mid]
               @ affix_sound_parts
                   (suffix_parts example_tables (init_decoder ''inch'' [''IH'', ''N'', ''CH''])))"
proof -
  have h: "decode example_tables 2 (init_decoder ''inch'' [''IH'', ''N'', ''CH''])
             = Some inch_decoded"
    by (simp add: run_defs inch_decoded_def eval_nat_numeral)
  have nd: "\<not> decodable inch_decoded" by (simp add: inch_decoded_def)
  from undecodable_segment_is_final [OF h] nd h show ?thesis by blast
qed

section \<open>Phonemes: the round trip\<close>

text \<open>
  C4, as stated, fails: the word \<open>k\<close> has the phonemes K, EY. The letter \<open>k\<close> takes
  the phoneme K, the letters are used up, and the loop ends with EY still in the buffer.
  The word is decodable and its sound parts give K alone.
\<close>

theorem sound_round_trip_counterexample:
  "simplified_cmudict example_tables (lower ''k'') = Some [''K'', ''EY'']
   \<and> WordDecoder example_tables 1 ''k''
       = Some (Inr \<lparr>word = ''k'', word_phonemes = [''K'', ''EY''], remaining_letters = [],
                    remaining_sounds = [''EY''], letter_parts = [''k''],
                    sound_parts = [[''K'']], indicators = [HARD_CONSONANT],
                    decodable = True\<rparr>)
   \<and> concat [[''K'']] \<noteq> [''K'', ''EY'']"
  by (simp add: run_defs)

text \<open>
  C4, amended. When the affix stage has matched at most one prefix entry and at most one
  suffix entry, and the two do not overlap in the phoneme sequence: the sound parts,
  concatenated, equal the word's phoneme sequence exactly when no phoneme is left in the
  buffer at the end of the loop; the phonemes left over belong between the body segments
  and the suffix segments. When \<open>decodable\<close> is false nothing is left over, since the
  undecodable segment has taken the whole buffer, and the round trip holds.
\<close>

theorem sound_round_trip:
  assumes "decode T n (init_decoder w ph) = Some r"
      and "length (affix_sound_parts (prefix_parts T (init_decoder w ph))) \<le> 1"
      and "length (affix_sound_parts (suffix_parts T (init_decoder w ph))) \<le> 1"
      and "length (concat (affix_sound_parts (prefix_parts T (init_decoder w ph))))
             + length (concat (affix_sound_parts (suffix_parts T (init_decoder w ph))))
           \<le> length ph"
  shows "(concat (sound_parts r) = ph \<longleftrightarrow> remaining_sounds r = [])
       \<and> (\<not> decodable r \<longrightarrow> remaining_sounds r = [] \<and> concat (sound_parts r) = ph)
       \<and> (\<exists>body. sound_parts r
                    = affix_sound_parts (prefix_parts T (init_decoder w ph)) @ body
                        @ affix_sound_parts (suffix_parts T (init_decoder w ph))
                  \<and> concat (affix_sound_parts (prefix_parts T (init_decoder w ph)))
                      @ concat body @ remaining_sounds r
                      @ concat (affix_sound_parts (suffix_parts T (init_decoder w ph)))
                    = ph)"
proof -
  let ?st0 = "init_decoder w ph"
  let ?P = "affix_sound_parts (prefix_parts T ?st0)"
  let ?S = "affix_sound_parts (suffix_parts T ?st0)"
  from assms(1) obtain st3 where run: "body_loop T n (body_start T ?st0) = Some st3"
    and sp: "sound_parts r = ?P @ sound_parts st3 @ ?S"
    and rs: "remaining_sounds r = remaining_sounds st3"
    and dc: "decodable r = decodable st3"
    by (auto simp: decode_stages split: option.splits)
  have start: "sound_parts (body_start T ?st0) = []" "decodable (body_start T ?st0)"
    "UNDECODABLE \<notin> set (indicators (body_start T ?st0))"
    using body_start_frame [of T ?st0] by (simp_all add: init_decoder_def)
  from body_loop_sounds [OF run] start(1)
  have body: "concat (sound_parts st3) @ remaining_sounds st3
                = remaining_sounds (body_start T ?st0)"
    by simp
  from affix_stage_sounds [OF refl refl assms(2) assms(3) assms(4)]
  have "concat ?P @ remaining_sounds (body_start T ?st0) @ concat ?S = ph" .
  with body have whole: "concat ?P @ concat (sound_parts st3) @ remaining_sounds st3 @ concat ?S = ph"
    by (metis append.assoc)
  have iff: "concat (sound_parts r) = ph \<longleftrightarrow> remaining_sounds r = []"
  proof
    assume "concat (sound_parts r) = ph"
    then have "length (concat ?P @ concat (sound_parts st3) @ concat ?S)
                 = length (concat ?P @ concat (sound_parts st3) @ remaining_sounds st3 @ concat ?S)"
      using whole sp by simp
    then show "remaining_sounds r = []" by (simp add: rs)
  next
    assume "remaining_sounds r = []"
    with whole rs sp show "concat (sound_parts r) = ph" by simp
  qed
  have und: "\<not> decodable r \<longrightarrow> remaining_sounds r = []"
    using body_loop_undecodable [OF run start(2) start(3)] dc rs
    by (auto simp: handle_undecodable_def)
  from whole sp rs have "\<exists>body. sound_parts r = ?P @ body @ ?S
                  \<and> concat ?P @ concat body @ remaining_sounds r @ concat ?S = ph"
    by auto
  with iff und show ?thesis by blast
qed

theorem sound_round_trip_witness:
  "decode example_tables 2 (init_decoder ''inch'' [''IH'', ''N'', ''CH'']) = Some inch_decoded
   \<and> length (affix_sound_parts
               (prefix_parts example_tables (init_decoder ''inch'' [''IH'', ''N'', ''CH''])))
       \<le> 1
   \<and> \<not> decodable inch_decoded
   \<and> remaining_sounds inch_decoded = []
   \<and> concat (sound_parts inch_decoded) = [''IH'', ''N'', ''CH'']"
proof -
  have h: "decode example_tables 2 (init_decoder ''inch'' [''IH'', ''N'', ''CH''])
             = Some inch_decoded"
    by (simp add: run_defs inch_decoded_def eval_nat_numeral)
  have p: "affix_sound_parts
             (prefix_parts example_tables (init_decoder ''inch'' [''IH'', ''N'', ''CH'']))
           = [[''IH'', ''N'']]"
    by (simp add: prefix_parts_def run_defs)
  have s: "affix_sound_parts
             (suffix_parts example_tables (init_decoder ''inch'' [''IH'', ''N'', ''CH'']))
           = []"
    by (simp add: suffix_parts_def run_defs)
  have nd: "\<not> decodable inch_decoded" by (simp add: inch_decoded_def)
  from sound_round_trip [OF h] p s nd h show ?thesis by simp
qed

section \<open>Termination\<close>

text \<open>
  C9. When no key of the letter-combination table is the empty string, every pass of the
  loop on a non-empty buffer makes the buffer strictly shorter, \<open>handle_undecodable\<close>
  empties it, and for a dictionary-known word the constructor returns a decoder within
  as many passes as the word has letters.
\<close>

theorem decode_terminates:
  assumes "[] \<notin> fst ` set (letter_combinations T)"
      and "simplified_cmudict T (lower w) = Some ph"
      and "length w \<le> n"
  shows "(\<exists>r. WordDecoder T n w = Some (Inr r))
       \<and> (remaining_letters st \<noteq> [] \<longrightarrow>
            length (remaining_letters (body_iter T st)) < length (remaining_letters st))
       \<and> remaining_letters (handle_undecodable st) = []"
proof -
  let ?st0 = "init_decoder (lower w) ph"
  have "length (remaining_letters (body_start T ?st0)) \<le> length (remaining_letters ?st0)"
    using body_start_frame [of T ?st0] by simp
  also have "\<dots> = length w" by (simp add: init_decoder_def lower_def)
  finally have "length (remaining_letters (body_start T ?st0)) \<le> n" using assms(3) by simp
  from body_loop_enough [OF assms(1) this]
  obtain st3 where "body_loop T n (body_start T ?st0) = Some st3" by blast
  then have "\<exists>r. WordDecoder T n w = Some (Inr r)"
    by (simp add: WordDecoder_def assms(2) decode_stages)
  moreover have "remaining_letters st \<noteq> [] \<longrightarrow>
            length (remaining_letters (body_iter T st)) < length (remaining_letters st)"
    using body_iter_shorter [OF assms(1)] by blast
  moreover have "remaining_letters (handle_undecodable st) = []"
    by (simp add: handle_undecodable_def)
  ultimately show ?thesis by blast
qed

theorem decode_terminates_witness:
  "[] \<notin> fst ` set (letter_combinations example_tables)
   \<and> simplified_cmudict example_tables (lower ''Bath'') = Some [''B'', ''AE'', ''TH'']
   \<and> (\<exists>r. WordDecoder example_tables 4 ''Bath'' = Some (Inr r))
   \<and> length (remaining_letters
               (body_iter example_tables (init_decoder ''bath'' [''B'', ''AE'', ''TH''])))
       < 4"
proof -
  have k: "[] \<notin> fst ` set (letter_combinations example_tables)"
    by (simp add: example_tables_def)
  have d: "simplified_cmudict example_tables (lower ''Bath'') = Some [''B'', ''AE'', ''TH'']"
    by (simp add: run_defs)
  have l: "length ''Bath'' \<le> 4" by simp
  from decode_terminates [OF k d l, of "init_decoder ''bath'' [''B'', ''AE'', ''TH'']"] k d
  show ?thesis by (simp add: init_decoder_def)
qed

end
